theory Spec2Isabelle
  imports Complex_Main
begin

section \<open>The dynamic-batch-size simulator (exp/dynamic_batch_size/main.py)\<close>

text \<open>
  A shallow embedding of the discrete-event engine of \<^verbatim>\<open>main.py\<close>: the request
  entity, admission control, the arrival gate and the event loop.

  Conventions of the model.
  \<^item> Python floats are modelled by exact reals; \<^verbatim>\<open>math.inf\<close> is the separate value
    \<open>Never\<close> of the type \<open>xtime\<close>.
  \<^item> Every \<^verbatim>\<open>raise\<close>, failing \<^verbatim>\<open>assert\<close> and \<^verbatim>\<open>exit(1)\<close> is a value
    \<open>Inl e\<close> of the result type \<open>error + 'a\<close>.
  \<^item> The module-level containers and loop variables are the fields of the record
    \<open>sim_state\<close>, passed explicitly from step to step.
  \<^item> A container holds its requests as a list in container order, head first.
    Requests are values: a request lives in one container at a time.
  \<^item> The scheduling policy (\<^verbatim>\<open>SimpleScheduler\<close>, \<^verbatim>\<open>DynamicScheduler\<close>) is not part
    of the sources; the engine is parametrised by it (record \<open>policy\<close>).
\<close>

subsection \<open>Errors and times\<close>

datatype config_error =
    CompressRatioNotPositive real
  | NumUserNotPositive int
  | SloFactorNotPositive real
  | MaxBatchSizeNotPositive int

datatype assertion =
    BatchEmpty
  | FinishTimeWrong int
  | AllTimesInf

datatype error =
    KeyError int
  | IndexError
  | NameError
  | AssertionError assertion
  | SystemExit config_error

datatype xtime = At real | Never


fun xmin :: "xtime \<Rightarrow> xtime \<Rightarrow> xtime" where
  "xmin (At a) (At b) = At (min a b)"
| "xmin (At a) Never = At a"
| "xmin Never y = y"

subsection \<open>class Event\<close>

datatype Event = CHECK_PREEMPTION | BATCH_FINISHED | NEW_REQS_ARRIVED

subsection \<open>class Request\<close>

record Request =
  arrival_time :: real
  id_r :: int
  queue_time :: "real option"
  dropped_time :: "real option"
  execution_time :: "real option"
  finish_time :: "real option"
  batch_size :: "nat option"
  slo_factor :: real
  deadline :: real

text \<open>The throughput profile \<^verbatim>\<open>batch_runtimes\<close>: a dict from batch size to runtime.\<close>

type_synonym runtimes = "int \<rightharpoonup> real"

text \<open>\<^verbatim>\<open>Request.__init__\<close>; \<^verbatim>\<open>batch_runtimes[1]\<close> raises KeyError when the entry is missing.\<close>

definition new_request :: "runtimes \<Rightarrow> real \<Rightarrow> int \<Rightarrow> real \<Rightarrow> error + Request" where
  "new_request br a i s =
     (case br 1 of
        None \<Rightarrow> Inl (KeyError 1)
      | Some d1 \<Rightarrow>
          Inr \<lparr> arrival_time = a, id_r = i, queue_time = None, dropped_time = None,
                execution_time = None, finish_time = None, batch_size = None,
                slo_factor = s, deadline = a + s * d1 \<rparr>)"

text \<open>\<^verbatim>\<open>Request.schedule(current_time, batch_size, batch_runtime)\<close>\<close>

definition Request_schedule :: "Request \<Rightarrow> real \<Rightarrow> nat \<Rightarrow> real \<Rightarrow> Request" where
  "Request_schedule r t b d =
     r \<lparr> queue_time := Some (t - arrival_time r),
         batch_size := Some b,
         execution_time := Some d,
         finish_time := Some (t + d) \<rparr>"

text \<open>\<^verbatim>\<open>Request.preempt()\<close>\<close>

definition Request_preempt :: "Request \<Rightarrow> Request" where
  "Request_preempt r =
     r \<lparr> queue_time := None, batch_size := None, execution_time := None, finish_time := None \<rparr>"

text \<open>\<^verbatim>\<open>Request.get_dropped(current_time)\<close>\<close>

definition get_dropped :: "Request \<Rightarrow> real \<Rightarrow> Request" where
  "get_dropped r t = r \<lparr> dropped_time := Some t \<rparr>"

subsection \<open>The ordered container\<close>

text \<open>
  Modelled from the spec: \<^verbatim>\<open>utils.SortedQueue\<close> is not among the sources. The spec
  describes it as an ordered container with append preserving the sort order, peek-minimum
  (\<^verbatim>\<open>q[0]\<close>), pop-minimum (\<^verbatim>\<open>q.pop()\<close>), length and positional iteration. The model
  keeps the contents as a list in container order: \<^verbatim>\<open>q[0]\<close> is the head, \<^verbatim>\<open>q.pop()\<close>
  removes the head, and \<open>sq_append key r q\<close> inserts \<open>r\<close> by its ordering key
  (arrival time for the not-yet-arrived container, deadline for the waiting container),
  behind the requests already there with the same key.
\<close>

fun sq_append :: "(Request \<Rightarrow> real) \<Rightarrow> Request \<Rightarrow> Request list \<Rightarrow> Request list" where
  "sq_append key r [] = [r]"
| "sq_append key r (x # q) = (if key r < key x then r # x # q else x # sq_append key r q)"

subsection \<open>fetch\_new\_requests and drop\_requests\<close>

text \<open>
  The loop of \<^verbatim>\<open>fetch_new_requests\<close>: arguments are the current time, the
  not-yet-arrived container, the waiting container and the list \<^verbatim>\<open>new_reqs\<close>.
\<close>

fun fetch_loop ::
  "real \<Rightarrow> Request list \<Rightarrow> Request list \<Rightarrow> int list \<Rightarrow> Request list \<times> Request list \<times> int list"
where
  "fetch_loop t [] q new = ([], q, new)"
| "fetch_loop t (r # fut) q new =
     (if arrival_time r \<le> t
      then fetch_loop t fut (sq_append deadline r q) (new @ [id_r r])
      else (r # fut, q, new))"

definition fetch_new_requests ::
  "real \<Rightarrow> Request list \<Rightarrow> Request list \<Rightarrow> Request list \<times> Request list \<times> int list"
where
  "fetch_new_requests t fut q = fetch_loop t fut q []"

text \<open>
  The loop of \<^verbatim>\<open>drop_requests\<close>: the loop test reads \<^verbatim>\<open>batch_runtimes[1]\<close> only when
  the waiting container is non-empty. The result is the waiting container, the
  finished-requests history and the list \<^verbatim>\<open>dropped_reqs\<close>.
\<close>

fun drop_loop ::
  "runtimes \<Rightarrow> real \<Rightarrow> Request list \<Rightarrow> Request list \<Rightarrow> int list
     \<Rightarrow> error + (Request list \<times> Request list \<times> int list)"
where
  "drop_loop br t [] fin dropped = Inr ([], fin, dropped)"
| "drop_loop br t (r # q) fin dropped =
     (case br 1 of
        None \<Rightarrow> Inl (KeyError 1)
      | Some d1 \<Rightarrow>
          if deadline r < t + d1
          then drop_loop br t q (fin @ [get_dropped r t]) (dropped @ [id_r r])
          else Inr (r # q, fin, dropped))"

definition drop_requests ::
  "runtimes \<Rightarrow> real \<Rightarrow> Request list \<Rightarrow> Request list
     \<Rightarrow> error + (Request list \<times> Request list \<times> int list)"
where
  "drop_requests br t q fin = drop_loop br t q fin []"

subsection \<open>The scheduling policy\<close>

text \<open>
  The engine calls two entry points of the scheduler object:
  \<^verbatim>\<open>scheduler.schedule(current_batch, queue, current_time)\<close>, whose first result is
  the next check time, and
  \<^verbatim>\<open>scheduler.preempt(current_batch, queue, current_time, batch_finish_time)\<close>, which
  returns \<^verbatim>\<open>do_preemption\<close>. Both mutate the two containers they are given and may
  keep internal state of type \<open>'p\<close>; in the model they return the new internal state and
  the new contents of the in-flight batch and of the waiting container.
\<close>

record 'p policy =
  schedule :: "'p \<Rightarrow> Request list \<Rightarrow> Request list \<Rightarrow> real
                 \<Rightarrow> 'p \<times> Request list \<times> Request list \<times> xtime"
  preempt :: "'p \<Rightarrow> Request list \<Rightarrow> Request list \<Rightarrow> real \<Rightarrow> xtime
                 \<Rightarrow> 'p \<times> Request list \<times> Request list \<times> bool"

subsection \<open>The simulation state\<close>

text \<open>
  The module-level variables and the loop's local \<^verbatim>\<open>next_check_time\<close>, which is
  unbound (\<open>None\<close>) until the first call of \<^verbatim>\<open>scheduler.schedule\<close>.
\<close>

record 'p sim_state =
  queue :: "Request list"
  future_requests :: "Request list"
  finished_requests :: "Request list"
  current_batch :: "Request list"
  current_time :: real
  batch_finish_time :: xtime
  next_check_time :: "xtime option"
  scheduler :: 'p

datatype 'p outcome = Continue "'p sim_state" | Finished "'p sim_state"

subsection \<open>One iteration of the event loop\<close>

text \<open>Lines 290-295: the event of the iteration.\<close>

definition classify :: "Request list \<Rightarrow> real \<Rightarrow> xtime \<Rightarrow> Event" where
  "classify b t bft =
     (if length b = 0 then NEW_REQS_ARRIVED
      else if At t = bft then BATCH_FINISHED
      else CHECK_PREEMPTION)"

definition event_of :: "'p sim_state \<Rightarrow> Event" where
  "event_of st = classify (current_batch st) (current_time st) (batch_finish_time st)"

text \<open>Lines 299-306: drop requests, then fetch new requests.\<close>

definition admit :: "runtimes \<Rightarrow> 'p sim_state \<Rightarrow> error + 'p sim_state" where
  "admit br st =
     (case drop_requests br (current_time st) (queue st) (finished_requests st) of
        Inl e \<Rightarrow> Inl e
      | Inr (q1, fin1, drop_reqs) \<Rightarrow>
          (case fetch_new_requests (current_time st) (future_requests st) q1 of
             (fut2, q2, new_reqs) \<Rightarrow>
               Inr (st \<lparr> queue := q2, future_requests := fut2, finished_requests := fin1 \<rparr>)))"

text \<open>Lines 312-320: the preemption check.\<close>

definition preempt_phase ::
  "'p policy \<Rightarrow> bool \<Rightarrow> runtimes \<Rightarrow> Event \<Rightarrow> 'p sim_state \<Rightarrow> error + 'p sim_state"
where
  "preempt_phase pol preemption br event st =
     (if event = CHECK_PREEMPTION \<and> preemption
      then
        (case preempt pol (scheduler st) (current_batch st) (queue st) (current_time st)
                (batch_finish_time st) of
           (p', b', q', do_preemption) \<Rightarrow>
             if do_preemption
             then
               (case br (int (length b')) of
                  None \<Rightarrow> Inl (KeyError (int (length b')))
                | Some duration \<Rightarrow>
                    Inr (st \<lparr> scheduler := p', current_batch := b', queue := q',
                              batch_finish_time := At (current_time st + duration) \<rparr>))
             else Inr (st \<lparr> scheduler := p', current_batch := b', queue := q' \<rparr>))
      else Inr st)"

text \<open>
  Lines 328-332: the drain loop; the arguments are the current time, the in-flight
  batch and the finished-requests history.
\<close>

fun drain :: "real \<Rightarrow> Request list \<Rightarrow> Request list \<Rightarrow> error + Request list" where
  "drain t [] fin = Inr fin"
| "drain t (r # b) fin =
     (if finish_time r = Some t then drain t b (fin @ [r])
      else Inl (AssertionError (FinishTimeWrong (id_r r))))"

text \<open>Lines 323-334: the batch is finished.\<close>

definition finish_phase :: "Event \<Rightarrow> 'p sim_state \<Rightarrow> error + 'p sim_state" where
  "finish_phase event st =
     (if event = BATCH_FINISHED
      then
        (if length (current_batch st) > 0
         then
           (case drain (current_time st) (current_batch st) (finished_requests st) of
              Inl e \<Rightarrow> Inl e
            | Inr fin' \<Rightarrow>
                Inr (st \<lparr> current_batch := [], finished_requests := fin',
                          batch_finish_time := Never \<rparr>))
         else Inl (AssertionError BatchEmpty))
      else Inr st)"

text \<open>
  Lines 339-345: the batch the policy left in flight is committed: its finish time is
  recorded and every request in it is stamped.
\<close>

definition commit_batch :: "runtimes \<Rightarrow> real \<Rightarrow> Request list \<Rightarrow> error + (Request list \<times> xtime)" where
  "commit_batch br t b =
     (case br (int (length b)) of
        None \<Rightarrow> Inl (KeyError (int (length b)))
      | Some duration \<Rightarrow>
          Inr (map (\<lambda>req. Request_schedule req t (length b) duration) b, At (t + duration)))"

text \<open>Lines 336-347: schedule the next batch.\<close>

definition schedule_phase ::
  "'p policy \<Rightarrow> runtimes \<Rightarrow> Event \<Rightarrow> 'p sim_state \<Rightarrow> error + 'p sim_state"
where
  "schedule_phase pol br event st =
     (if event \<noteq> CHECK_PREEMPTION
      then
        (case schedule pol (scheduler st) (current_batch st) (queue st) (current_time st) of
           (p', b', q', nct) \<Rightarrow>
             if length b' > 0
             then
               (case commit_batch br (current_time st) b' of
                  Inl e \<Rightarrow> Inl e
                | Inr (b'', bft) \<Rightarrow>
                    Inr (st \<lparr> scheduler := p', current_batch := b'', queue := q',
                              next_check_time := Some nct, batch_finish_time := bft \<rparr>))
             else
               Inr (st \<lparr> scheduler := p', current_batch := b', queue := q',
                         next_check_time := Some nct \<rparr>))
      else Inr st)"

text \<open>
  Lines 349-357: the termination check and the time advance. Reading the unbound
  \<^verbatim>\<open>next_check_time\<close> raises NameError; the assertion fails when all three times
  are infinite.
\<close>

definition next_req_arrival_time :: "'p sim_state \<Rightarrow> xtime" where
  "next_req_arrival_time st =
     (case future_requests st of [] \<Rightarrow> Never | r # _ \<Rightarrow> At (arrival_time r))"

definition advance :: "'p sim_state \<Rightarrow> error + 'p outcome" where
  "advance st =
     (if length (future_requests st) = 0 \<and> length (queue st) = 0
         \<and> length (current_batch st) = 0
      then Inr (Finished st)
      else
        (case next_check_time st of
           None \<Rightarrow> Inl NameError
         | Some nct \<Rightarrow>
             (case xmin nct (xmin (batch_finish_time st) (next_req_arrival_time st)) of
                Never \<Rightarrow> Inl (AssertionError AllTimesInf)
              | At t' \<Rightarrow> Inr (Continue (st \<lparr> current_time := t' \<rparr>)))))"

text \<open>The body of the loop for a given event, and the body with the event it computes.\<close>

definition iteration_on ::
  "'p policy \<Rightarrow> bool \<Rightarrow> runtimes \<Rightarrow> Event \<Rightarrow> 'p sim_state \<Rightarrow> error + 'p outcome"
where
  "iteration_on pol preemption br event st =
     (case admit br st of
        Inl e \<Rightarrow> Inl e
      | Inr st1 \<Rightarrow>
          (case preempt_phase pol preemption br event st1 of
             Inl e \<Rightarrow> Inl e
           | Inr st2 \<Rightarrow>
               (case finish_phase event st2 of
                  Inl e \<Rightarrow> Inl e
                | Inr st3 \<Rightarrow>
                    (case schedule_phase pol br event st3 of
                       Inl e \<Rightarrow> Inl e
                     | Inr st4 \<Rightarrow> advance st4))))"

definition iteration ::
  "'p policy \<Rightarrow> bool \<Rightarrow> runtimes \<Rightarrow> 'p sim_state \<Rightarrow> error + 'p outcome"
where
  "iteration pol preemption br st = iteration_on pol preemption br (event_of st) st"

text \<open>
  The \<^verbatim>\<open>while (True)\<close> loop, unrolled \<open>n\<close> times: \<open>Inr (Continue st)\<close> is the state at
  the top of iteration \<open>n\<close>, \<open>Inr (Finished st)\<close> the state at the \<^verbatim>\<open>break\<close>.
\<close>

fun run ::
  "'p policy \<Rightarrow> bool \<Rightarrow> runtimes \<Rightarrow> nat \<Rightarrow> 'p sim_state \<Rightarrow> error + 'p outcome"
where
  "run pol preemption br 0 st = Inr (Continue st)"
| "run pol preemption br (Suc n) st =
     (case iteration pol preemption br st of
        Inl e \<Rightarrow> Inl e
      | Inr (Finished st') \<Rightarrow> Inr (Finished st')
      | Inr (Continue st') \<Rightarrow> run pol preemption br n st')"

subsection \<open>Start-up: argument validation and request construction\<close>

datatype trace_variation = Compress | MultiUser

record args =
  args_preemption :: bool
  args_vary_trace :: trace_variation
  args_compress_ratio :: real
  args_num_user :: int
  args_slo_factor :: real
  args_max_batch_size :: int
  args_offline_num_reqs :: int

text \<open>Lines 174-186; each failing check prints its message and calls \<^verbatim>\<open>exit(1)\<close>.\<close>

definition validate_args :: "args \<Rightarrow> error + unit" where
  "validate_args a =
     (if args_vary_trace a = Compress \<and> args_compress_ratio a \<le> 0
      then Inl (SystemExit (CompressRatioNotPositive (args_compress_ratio a)))
      else if args_vary_trace a = MultiUser \<and> args_num_user a \<le> 0
      then Inl (SystemExit (NumUserNotPositive (args_num_user a)))
      else if args_slo_factor a \<le> 0
      then Inl (SystemExit (SloFactorNotPositive (args_slo_factor a)))
      else if args_max_batch_size a \<le> 0
      then Inl (SystemExit (MaxBatchSizeNotPositive (args_max_batch_size a)))
      else Inr ())"

text \<open>
  Lines 225-236: requests from the rows (request id, SLO factor, arrival time) of the
  SLO file, inserted into the not-yet-arrived container.
\<close>

fun load_slo_csv ::
  "runtimes \<Rightarrow> int \<Rightarrow> (int \<times> real \<times> real) list \<Rightarrow> Request list \<Rightarrow> error + Request list"
where
  "load_slo_csv br offline [] fut = Inr fut"
| "load_slo_csv br offline ((request_id, s, a) # rows) fut =
     (case new_request br (if offline = 0 then a else 0) request_id s of
        Inl e \<Rightarrow> Inl e
      | Inr request \<Rightarrow>
          (let fut' = sq_append arrival_time request fut
           in if offline > 0 \<and> request_id \<ge> offline - 1 then Inr fut'
              else load_slo_csv br offline rows fut'))"

text \<open>Lines 239-248: requests from the generated arrival times, numbered from \<open>i\<close>.\<close>

fun load_trace ::
  "runtimes \<Rightarrow> int \<Rightarrow> real \<Rightarrow> int \<Rightarrow> real list \<Rightarrow> Request list \<Rightarrow> error + Request list"
where
  "load_trace br offline s i [] fut = Inr fut"
| "load_trace br offline s i (a # arrival_times) fut =
     (case new_request br (if offline = 0 then a else 0) i s of
        Inl e \<Rightarrow> Inl e
      | Inr request \<Rightarrow>
          (let fut' = sq_append arrival_time request fut
           in if offline > 0 \<and> i \<ge> offline - 1 then Inr fut'
              else load_trace br offline s (i + 1) arrival_times fut'))"

text \<open>
  Everything before the loop: validation, the loaded throughput profile \<open>br\<close>, the
  requests, and \<^verbatim>\<open>current_time = float(future_requests[0].arrival_time)\<close>, which
  raises IndexError on an empty container. The trace generator's arrival times, the rows
  of the optional SLO file and the constructed scheduler are parameters.
\<close>

definition startup ::
  "args \<Rightarrow> runtimes \<Rightarrow> real list \<Rightarrow> (int \<times> real \<times> real) list option \<Rightarrow> 'p
     \<Rightarrow> error + 'p sim_state"
where
  "startup a br arrival_times slo_csv sched =
     (case validate_args a of
        Inl e \<Rightarrow> Inl e
      | Inr _ \<Rightarrow>
          (case (case slo_csv of
                   Some rows \<Rightarrow> load_slo_csv br (args_offline_num_reqs a) rows []
                 | None \<Rightarrow>
                     load_trace br (args_offline_num_reqs a) (args_slo_factor a) 0
                       arrival_times []) of
             Inl e \<Rightarrow> Inl e
           | Inr fut \<Rightarrow>
               (case fut of
                  [] \<Rightarrow> Inl IndexError
                | r # _ \<Rightarrow>
                    Inr \<lparr> queue = [], future_requests = fut, finished_requests = [],
                          current_batch = [], current_time = arrival_time r,
                          batch_finish_time = Never, next_check_time = None,
                          scheduler = sched \<rparr>)))"

text \<open>
  The loop is entered when \<^verbatim>\<open>args.offline_num_reqs\<close> is 0; the offline branch hands
  everything to the policy's \<^verbatim>\<open>offline_schedule\<close> and is not part of the model.
\<close>

subsection \<open>Properties of requests and states, and what is assumed of a policy\<close>

fun outcome_state :: "'p outcome \<Rightarrow> 'p sim_state" where
  "outcome_state (Continue st) = st"
| "outcome_state (Finished st) = st"

text \<open>Every request the engine holds, in all four containers.\<close>

definition state_requests :: "'p sim_state \<Rightarrow> Request list" where
  "state_requests st =
     future_requests st @ queue st @ current_batch st @ finished_requests st"

text \<open>The four scheduling fields of a request are all unset or all set.\<close>

definition all_or_nothing :: "Request \<Rightarrow> bool" where
  "all_or_nothing r \<longleftrightarrow>
     (queue_time r = None \<and> batch_size r = None \<and> execution_time r = None
        \<and> finish_time r = None)
   \<or> (queue_time r \<noteq> None \<and> batch_size r \<noteq> None \<and> execution_time r \<noteq> None
        \<and> finish_time r \<noteq> None)"

text \<open>
  Modelled from the spec: the policy classes are not among the sources. The spec (4.5)
  asks that a policy never violates the scheduling-field invariants. A policy keeps a
  property \<open>P\<close> of requests: given a batch and a waiting container
  whose requests satisfy \<open>P\<close>, both entry points return containers whose requests
  satisfy \<open>P\<close>.
\<close>

definition policy_keeps :: "(Request \<Rightarrow> bool) \<Rightarrow> 'p policy \<Rightarrow> bool" where
  "policy_keeps P pol \<longleftrightarrow>
     (\<forall>p b q t p' b' q' nct.
        (\<forall>r\<in>set b \<union> set q. P r) \<longrightarrow> schedule pol p b q t = (p', b', q', nct)
          \<longrightarrow> (\<forall>r\<in>set b' \<union> set q'. P r))
   \<and> (\<forall>p b q t bft p' b' q' ch.
        (\<forall>r\<in>set b \<union> set q. P r) \<longrightarrow> preempt pol p b q t bft = (p', b', q', ch)
          \<longrightarrow> (\<forall>r\<in>set b' \<union> set q'. P r))"






subsection \<open>Example data\<close>

text \<open>
  The throughput profile of the spec's scenarios (one request takes 10, a batch of two
  takes 15), a freshly constructed request under that profile, and four small policies.
  \<open>policy_batch_all\<close> moves the whole waiting container into the batch and never
  preempts; \<open>policy_evict_last\<close> schedules the same way, and on a preemption check
  returns the last request of a batch of two or more to the waiting container
  (\<^verbatim>\<open>Request.preempt\<close>, then append) and reports the change; \<open>policy_wait\<close>
  never schedules and asks to be woken one time unit later;
  \<open>policy_evict_restamp\<close> evicts like \<open>policy_evict_last\<close> and then stamps the
  requests left in the batch for the new batch size (\<^verbatim>\<open>Request.schedule\<close>).
  \<open>example_running\<close> and \<open>example_checking\<close> are states at the top of a second
  iteration, with the first request in flight: at its finish time, and at the arrival of
  a second request. \<open>example_evicted\<close> is the state at time 13 after requests 0 and 1
  were batched at 0 and \<open>policy_evict_restamp\<close> evicted request 1 at 3.
\<close>

definition example_runtimes :: runtimes where
  "example_runtimes = [1 \<mapsto> 10, 2 \<mapsto> 15]"

definition example_args :: args where
  "example_args =
     \<lparr> args_preemption = False, args_vary_trace = Compress, args_compress_ratio = 0.3,
       args_num_user = 10, args_slo_factor = 5, args_max_batch_size = 16,
       args_offline_num_reqs = 0 \<rparr>"

definition example_state :: "Request list \<Rightarrow> Request list \<Rightarrow> real \<Rightarrow> unit sim_state" where
  "example_state q fut t =
     \<lparr> queue = q, future_requests = fut, finished_requests = [], current_batch = [],
       current_time = t, batch_finish_time = Never, next_check_time = None,
       scheduler = () \<rparr>"

definition example_request :: "int \<Rightarrow> real \<Rightarrow> real \<Rightarrow> Request" where
  "example_request i a s =
     \<lparr> arrival_time = a, id_r = i, queue_time = None, dropped_time = None,
       execution_time = None, finish_time = None, batch_size = None,
       slo_factor = s, deadline = a + s * 10 \<rparr>"

definition policy_batch_all :: "unit policy" where
  "policy_batch_all =
     \<lparr> schedule = (\<lambda>p b q t. (p, b @ q, [], Never)),
       preempt = (\<lambda>p b q t bft. (p, b, q, False)) \<rparr>"

definition policy_evict_last :: "unit policy" where
  "policy_evict_last =
     \<lparr> schedule = (\<lambda>p b q t. (p, b @ q, [], Never)),
       preempt = (\<lambda>p b q t bft.
         if length b > 1
         then (p, butlast b, sq_append deadline (Request_preempt (last b)) q, True)
         else (p, b, q, False)) \<rparr>"

definition policy_wait :: "unit policy" where
  "policy_wait =
     \<lparr> schedule = (\<lambda>p b q t. (p, b, q, At (t + 1))),
       preempt = (\<lambda>p b q t bft. (p, b, q, False)) \<rparr>"

definition example_runtimes_single :: runtimes where
  "example_runtimes_single = [1 \<mapsto> 10]"

definition policy_evict_restamp :: "runtimes \<Rightarrow> unit policy" where
  "policy_evict_restamp br =
     \<lparr> schedule = (\<lambda>p b q t. (p, b @ q, [], Never)),
       preempt = (\<lambda>p b q t bft.
         if length b > 1
         then
           (case br (int (length (butlast b))) of
              None \<Rightarrow> (p, b, q, False)
            | Some d \<Rightarrow>
                (p, map (\<lambda>r. Request_schedule r t (length (butlast b)) d) (butlast b),
                 sq_append deadline (Request_preempt (last b)) q, True))
         else (p, b, q, False)) \<rparr>"

definition example_running :: "unit sim_state" where
  "example_running =
     \<lparr> queue = [], future_requests = [], finished_requests = [],
       current_batch = [Request_schedule (example_request 0 0 5) 0 1 10],
       current_time = 10, batch_finish_time = At 10, next_check_time = Some Never,
       scheduler = () \<rparr>"

definition example_checking :: "unit sim_state" where
  "example_checking =
     \<lparr> queue = [], future_requests = [example_request 1 3 5], finished_requests = [],
       current_batch = [Request_schedule (example_request 0 0 5) 0 1 10],
       current_time = 3, batch_finish_time = At 10, next_check_time = Some Never,
       scheduler = () \<rparr>"

definition example_evicted :: "unit sim_state" where
  "example_evicted =
     \<lparr> queue = [Request_preempt (Request_schedule (example_request 1 0 5) 0 2 15),
                example_request 2 3 5],
       future_requests = [], finished_requests = [],
       current_batch = [Request_schedule (Request_schedule (example_request 0 0 5) 0 2 15) 3 1 10],
       current_time = 13, batch_finish_time = At 13, next_check_time = Some Never,
       scheduler = () \<rparr>"

lemmas engine_defs =
  iteration_def iteration_on_def event_of_def classify_def admit_def drop_requests_def
  fetch_new_requests_def preempt_phase_def finish_phase_def schedule_phase_def
  commit_batch_def advance_def next_req_arrival_time_def startup_def validate_args_def
  new_request_def

lemmas example_defs =
  example_runtimes_def example_runtimes_single_def example_request_def example_state_def
  example_args_def policy_batch_all_def policy_evict_last_def policy_wait_def
  example_running_def example_checking_def policy_evict_restamp_def example_evicted_def

lemmas request_defs = Request_schedule_def Request_preempt_def get_dropped_def

section \<open>The phases of an iteration\<close>


lemma drop_loop_split:
  "drop_loop br t q fin dropped = Inr (q', fin', ids) \<Longrightarrow>
     \<exists>gone. q = gone @ q' \<and> fin' = fin @ map (\<lambda>r. get_dropped r t) gone
          \<and> ids = dropped @ map id_r gone"
proof (induction q arbitrary: fin dropped)
  case Nil
  then show ?case by simp
next
  case (Cons r q)
  show ?case
  proof (cases "br 1")
    case None
    with Cons.prems show ?thesis by simp
  next
    case (Some d1)
    show ?thesis
    proof (cases "deadline r < t + d1")
      case True
      with Some Cons.prems
      have "drop_loop br t q (fin @ [get_dropped r t]) (dropped @ [id_r r]) = Inr (q', fin', ids)"
        by simp
      from Cons.IH [OF this] obtain gone where
        "q = gone @ q'" "fin' = (fin @ [get_dropped r t]) @ map (\<lambda>r. get_dropped r t) gone"
        "ids = (dropped @ [id_r r]) @ map id_r gone" by blast
      then have "r # q = (r # gone) @ q' \<and> fin' = fin @ map (\<lambda>r. get_dropped r t) (r # gone)
          \<and> ids = dropped @ map id_r (r # gone)" by simp
      then show ?thesis by blast
    next
      case False
      with Some Cons.prems have "q' = r # q \<and> fin' = fin \<and> ids = dropped" by simp
      then show ?thesis by simp
    qed
  qed
qed

lemma drop_requests_split:
  "drop_requests br t q fin = Inr (q', fin', ids) \<Longrightarrow>
     \<exists>gone. q = gone @ q' \<and> fin' = fin @ map (\<lambda>r. get_dropped r t) gone \<and> ids = map id_r gone"
  unfolding drop_requests_def using drop_loop_split [of br t q fin "[]" q' fin' ids] by simp

lemma set_sq_append: "set (sq_append key r q) = insert r (set q)"
  by (induction q) auto

lemma dropWhile_head: "dropWhile P xs = r # rest \<Longrightarrow> \<not> P r"
  by (induction xs) (auto split: if_splits)

lemma fetch_loop_eq:
  "\<exists>q'. fetch_loop t fut q new =
          (dropWhile (\<lambda>r. arrival_time r \<le> t) fut, q',
           new @ map id_r (takeWhile (\<lambda>r. arrival_time r \<le> t) fut))
        \<and> set q' = set q \<union> set (takeWhile (\<lambda>r. arrival_time r \<le> t) fut)"
proof (induction fut arbitrary: q new)
  case Nil
  then show ?case by simp
next
  case (Cons r fut)
  show ?case
  proof (cases "arrival_time r \<le> t")
    case True
    from Cons.IH [of "sq_append deadline r q" "new @ [id_r r]"] True
    show ?thesis by (auto simp: set_sq_append)
  next
    case False
    then show ?thesis by simp
  qed
qed

lemma fetch_loop_split:
  assumes "fetch_loop t fut q new = (fut', q', new')"
  shows "fut = takeWhile (\<lambda>r. arrival_time r \<le> t) fut @ fut'
       \<and> set q' = set q \<union> set (takeWhile (\<lambda>r. arrival_time r \<le> t) fut)
       \<and> new' = new @ map id_r (takeWhile (\<lambda>r. arrival_time r \<le> t) fut)
       \<and> (case fut' of [] \<Rightarrow> True | r # _ \<Rightarrow> t < arrival_time r)"
proof -
  from fetch_loop_eq [of t fut q new] assms
  have f: "fut' = dropWhile (\<lambda>r. arrival_time r \<le> t) fut"
    and q: "set q' = set q \<union> set (takeWhile (\<lambda>r. arrival_time r \<le> t) fut)"
    and n: "new' = new @ map id_r (takeWhile (\<lambda>r. arrival_time r \<le> t) fut)"
    by auto
  have h: "case fut' of [] \<Rightarrow> True | r # _ \<Rightarrow> t < arrival_time r"
  proof (cases fut')
    case Nil
    then show ?thesis by simp
  next
    case (Cons r rest)
    with f have "dropWhile (\<lambda>r. arrival_time r \<le> t) fut = r # rest" by simp
    from dropWhile_head [OF this] Cons show ?thesis by simp
  qed
  from f q n h show ?thesis by simp
qed

lemma admit_facts:
  assumes "admit br st = Inr st1"
  shows "\<exists>gone arrived rest.
           queue st = gone @ rest
         \<and> finished_requests st1 =
             finished_requests st @ map (\<lambda>r. get_dropped r (current_time st)) gone
         \<and> future_requests st = arrived @ future_requests st1
         \<and> arrived = takeWhile (\<lambda>r. arrival_time r \<le> current_time st) (future_requests st)
         \<and> set (queue st1) = set rest \<union> set arrived
         \<and> (case future_requests st1 of [] \<Rightarrow> True | r # _ \<Rightarrow> current_time st < arrival_time r)
         \<and> current_batch st1 = current_batch st
         \<and> current_time st1 = current_time st
         \<and> batch_finish_time st1 = batch_finish_time st
         \<and> next_check_time st1 = next_check_time st
         \<and> scheduler st1 = scheduler st"
proof -
  from assms obtain q1 fin1 ids where
    d: "drop_requests br (current_time st) (queue st) (finished_requests st) = Inr (q1, fin1, ids)"
    by (auto simp: admit_def split: sum.splits)
  obtain fut2 q2 new where
    f: "fetch_new_requests (current_time st) (future_requests st) q1 = (fut2, q2, new)"
    by (cases "fetch_new_requests (current_time st) (future_requests st) q1") auto
  from assms d f have st1:
    "st1 = st \<lparr> queue := q2, future_requests := fut2, finished_requests := fin1 \<rparr>"
    by (simp add: admit_def)
  from drop_requests_split [OF d] obtain gone where g:
    "queue st = gone @ q1"
    "fin1 = finished_requests st @ map (\<lambda>r. get_dropped r (current_time st)) gone"
    by blast
  from f have "fetch_loop (current_time st) (future_requests st) q1 [] = (fut2, q2, new)"
    by (simp add: fetch_new_requests_def)
  from fetch_loop_split [OF this] have a:
    "future_requests st =
       takeWhile (\<lambda>r. arrival_time r \<le> current_time st) (future_requests st) @ fut2"
    "set q2 = set q1
       \<union> set (takeWhile (\<lambda>r. arrival_time r \<le> current_time st) (future_requests st))"
    "case fut2 of [] \<Rightarrow> True | r # _ \<Rightarrow> current_time st < arrival_time r"
    by blast+
  from st1 g a show ?thesis by auto
qed

lemma admit_frame:
  assumes "admit br st = Inr st1"
  shows "current_batch st1 = current_batch st \<and> current_time st1 = current_time st
       \<and> batch_finish_time st1 = batch_finish_time st
       \<and> next_check_time st1 = next_check_time st \<and> scheduler st1 = scheduler st"
  using admit_facts [OF assms] by auto


lemma drain_result:
  "drain t b fin = Inr fin' \<Longrightarrow> fin' = fin @ b \<and> (\<forall>r\<in>set b. finish_time r = Some t)"
proof (induction b arbitrary: fin)
  case Nil
  then show ?case by simp
next
  case (Cons r b)
  from Cons.prems have ft: "finish_time r = Some t" and "drain t b (fin @ [r]) = Inr fin'"
    by (auto split: if_splits)
  from Cons.IH [OF this(2)] ft show ?case by simp
qed

lemma commit_batch_fields:
  assumes "commit_batch br t b = Inr (b', bft)"
  shows "\<exists>d. br (int (length b)) = Some d \<and> bft = At (t + d)
           \<and> b' = map (\<lambda>r. Request_schedule r t (length b) d) b"
  using assms by (auto simp: commit_batch_def split: option.splits)

lemma preempt_phase_result:
  assumes "preempt_phase pol preemption br event st = Inr st2"
  shows "future_requests st2 = future_requests st
       \<and> finished_requests st2 = finished_requests st
       \<and> current_time st2 = current_time st
       \<and> next_check_time st2 = next_check_time st
       \<and> (if event = CHECK_PREEMPTION \<and> preemption
           then \<exists>p' b' q' ch.
                  preempt pol (scheduler st) (current_batch st) (queue st) (current_time st)
                    (batch_finish_time st) = (p', b', q', ch)
                \<and> scheduler st2 = p' \<and> current_batch st2 = b' \<and> queue st2 = q'
                \<and> (if ch
                    then \<exists>d. br (int (length b')) = Some d
                           \<and> batch_finish_time st2 = At (current_time st + d)
                    else batch_finish_time st2 = batch_finish_time st)
           else st2 = st)"
proof (cases "event = CHECK_PREEMPTION \<and> preemption")
  case False
  with assms show ?thesis by (auto simp: preempt_phase_def)
next
  case True
  obtain p' b' q' ch where
    p: "preempt pol (scheduler st) (current_batch st) (queue st) (current_time st)
          (batch_finish_time st) = (p', b', q', ch)"
    by (cases "preempt pol (scheduler st) (current_batch st) (queue st) (current_time st)
          (batch_finish_time st)") auto
  show ?thesis
  proof (cases ch)
    case False
    with True p assms have "st2 = st \<lparr> scheduler := p', current_batch := b', queue := q' \<rparr>"
      by (simp add: preempt_phase_def)
    with True p False show ?thesis by auto
  next
    case ch: True
    with True p assms obtain d where d: "br (int (length b')) = Some d"
      by (cases "br (int (length b'))") (auto simp: preempt_phase_def)
    with ch True p assms
    have "st2 = st \<lparr> scheduler := p', current_batch := b', queue := q',
                     batch_finish_time := At (current_time st + d) \<rparr>"
      by (simp add: preempt_phase_def)
    with True p ch d show ?thesis by auto
  qed
qed

lemma finish_phase_result:
  assumes "finish_phase event st = Inr st3"
  shows "if event = BATCH_FINISHED
         then current_batch st \<noteq> []
            \<and> (\<forall>r\<in>set (current_batch st). finish_time r = Some (current_time st))
            \<and> st3 = st \<lparr> current_batch := [],
                         finished_requests := finished_requests st @ current_batch st,
                         batch_finish_time := Never \<rparr>
         else st3 = st"
proof (cases "event = BATCH_FINISHED")
  case False
  with assms show ?thesis by (auto simp: finish_phase_def)
next
  case True
  with assms have ne: "current_batch st \<noteq> []"
    by (auto simp: finish_phase_def split: if_splits)
  with True assms obtain fin' where
    d: "drain (current_time st) (current_batch st) (finished_requests st) = Inr fin'"
    and st3: "st3 = st \<lparr> current_batch := [], finished_requests := fin',
                          batch_finish_time := Never \<rparr>"
    by (auto simp: finish_phase_def split: sum.splits)
  from drain_result [OF d] st3 ne True show ?thesis by simp
qed

lemma schedule_phase_result:
  assumes "event \<noteq> CHECK_PREEMPTION" and "schedule_phase pol br event st = Inr st'"
  shows "\<exists>p' b' q' nct.
           schedule pol (scheduler st) (current_batch st) (queue st) (current_time st)
             = (p', b', q', nct)
         \<and> scheduler st' = p' \<and> queue st' = q' \<and> next_check_time st' = Some nct
         \<and> future_requests st' = future_requests st
         \<and> finished_requests st' = finished_requests st
         \<and> current_time st' = current_time st
         \<and> (if b' = []
             then current_batch st' = [] \<and> batch_finish_time st' = batch_finish_time st
             else \<exists>d. br (int (length b')) = Some d
                    \<and> batch_finish_time st' = At (current_time st + d)
                    \<and> current_batch st' =
                        map (\<lambda>r. Request_schedule r (current_time st) (length b') d) b')"
proof -
  obtain p' b' q' nct where
    s: "schedule pol (scheduler st) (current_batch st) (queue st) (current_time st)
          = (p', b', q', nct)"
    by (cases "schedule pol (scheduler st) (current_batch st) (queue st) (current_time st)") auto
  show ?thesis
  proof (cases "b' = []")
    case True
    with assms s have "st' = st \<lparr> scheduler := p', current_batch := b', queue := q',
                                  next_check_time := Some nct \<rparr>"
      by (simp add: schedule_phase_def)
    with s True show ?thesis by simp
  next
    case False
    with assms s obtain b'' bft where
      c: "commit_batch br (current_time st) b' = Inr (b'', bft)"
      and st': "st' = st \<lparr> scheduler := p', current_batch := b'', queue := q',
                             next_check_time := Some nct, batch_finish_time := bft \<rparr>"
      by (auto simp: schedule_phase_def split: sum.splits)
    from commit_batch_fields [OF c] st' s False show ?thesis by auto
  qed
qed

lemma schedule_phase_skip: "schedule_phase pol br CHECK_PREEMPTION st = Inr st"
  by (simp add: schedule_phase_def)

lemma advance_result:
  assumes "advance st = Inr out"
  shows "(future_requests st = [] \<and> queue st = [] \<and> current_batch st = [] \<and> out = Finished st)
       \<or> (\<not> (future_requests st = [] \<and> queue st = [] \<and> current_batch st = [])
          \<and> (\<exists>nct t'. next_check_time st = Some nct
                \<and> xmin nct (xmin (batch_finish_time st) (next_req_arrival_time st)) = At t'
                \<and> out = Continue (st \<lparr> current_time := t' \<rparr>)))"
  using assms by (auto simp: advance_def split: if_splits option.splits xtime.splits)

lemma iteration_phases:
  assumes "iteration pol preemption br st = Inr out"
  shows "\<exists>st1 st2 st3 st4.
           admit br st = Inr st1
         \<and> preempt_phase pol preemption br (event_of st) st1 = Inr st2
         \<and> finish_phase (event_of st) st2 = Inr st3
         \<and> schedule_phase pol br (event_of st) st3 = Inr st4
         \<and> advance st4 = Inr out"
  using assms by (auto simp: iteration_def iteration_on_def split: sum.splits)


lemma run_outcome_invariant:
  assumes step: "\<And>st out. P st \<Longrightarrow> iteration pol preemption br st = Inr out
                   \<Longrightarrow> P (outcome_state out)"
  shows "P st0 \<Longrightarrow> run pol preemption br n st0 = Inr out \<Longrightarrow> P (outcome_state out)"
proof (induction n arbitrary: st0)
  case 0
  then show ?case by auto
next
  case (Suc n)
  show ?case
  proof (cases "iteration pol preemption br st0")
    case (Inl e)
    with Suc.prems show ?thesis by simp
  next
    case (Inr o1)
    from step [OF Suc.prems(1) Inr] have p1: "P (outcome_state o1)" .
    show ?thesis
    proof (cases o1)
      case (Continue st1)
      with Inr Suc.prems have "run pol preemption br n st1 = Inr out" by simp
      from Suc.IH [OF _ this] p1 Continue show ?thesis by simp
    next
      case (Finished st1)
      with Inr Suc.prems have "out = o1" by simp
      with p1 show ?thesis by simp
    qed
  qed
qed

lemma startup_result:
  assumes "startup a br ats slo_csv p = Inr st0"
  shows "validate_args a = Inr ()
       \<and> (case slo_csv of
             Some rows \<Rightarrow> load_slo_csv br (args_offline_num_reqs a) rows []
           | None \<Rightarrow> load_trace br (args_offline_num_reqs a) (args_slo_factor a) 0 ats [])
           = Inr (future_requests st0)
       \<and> future_requests st0 \<noteq> []
       \<and> queue st0 = [] \<and> current_batch st0 = [] \<and> finished_requests st0 = []
       \<and> batch_finish_time st0 = Never \<and> next_check_time st0 = None \<and> scheduler st0 = p
       \<and> current_time st0 = arrival_time (hd (future_requests st0))"
  using assms by (auto simp: startup_def split: sum.splits list.splits)

section \<open>Admission control\<close>




section \<open>Event classification\<close>

text \<open>
  Claim C3. The event of an iteration is NEW\_REQS\_ARRIVED exactly when the in-flight
  batch is empty, BATCH\_FINISHED exactly when the batch is non-empty and the current
  time equals the recorded batch finish time, and CHECK\_PREEMPTION exactly in the
  remaining case; the body of every iteration runs on the event computed from the state
  at the top of that iteration.
\<close>

theorem classify_cases:
  "(classify b t bft = NEW_REQS_ARRIVED \<longleftrightarrow> b = [])
 \<and> (classify b t bft = BATCH_FINISHED \<longleftrightarrow> b \<noteq> [] \<and> At t = bft)
 \<and> (classify b t bft = CHECK_PREEMPTION \<longleftrightarrow> b \<noteq> [] \<and> At t \<noteq> bft)
 \<and> iteration pol preemption br st =
     iteration_on pol preemption br
       (classify (current_batch st) (current_time st) (batch_finish_time st)) st"
  by (simp add: classify_def iteration_def event_of_def)

section \<open>The scheduling transition\<close>



section \<open>The scheduling fields of a request\<close>

lemma all_or_nothing_methods:
  "all_or_nothing (Request_schedule r t b d)"
  "all_or_nothing (Request_preempt r)"
  "all_or_nothing (get_dropped r t) \<longleftrightarrow> all_or_nothing r"
  by (simp_all add: all_or_nothing_def Request_schedule_def Request_preempt_def get_dropped_def)

lemma new_request_fresh:
  "new_request br a i s = Inr r \<Longrightarrow> all_or_nothing r"
  by (auto simp: new_request_def all_or_nothing_def split: option.splits)

lemma load_trace_fresh:
  "\<forall>r\<in>set fut. all_or_nothing r \<Longrightarrow> load_trace br offline s i ats fut = Inr fut'
     \<Longrightarrow> \<forall>r\<in>set fut'. all_or_nothing r"
proof (induction ats arbitrary: i fut)
  case Nil
  then show ?case by simp
next
  case (Cons a ats)
  from Cons.prems(2) obtain r where
    n: "new_request br (if offline = 0 then a else 0) i s = Inr r"
    by (auto split: sum.splits)
  from new_request_fresh [OF n] Cons.prems(1)
  have f: "\<forall>x\<in>set (sq_append arrival_time r fut). all_or_nothing x"
    by (simp add: set_sq_append)
  show ?case
  proof (cases "offline > 0 \<and> i \<ge> offline - 1")
    case True
    with n Cons.prems(2) have "fut' = sq_append arrival_time r fut" by (simp add: Let_def)
    with f show ?thesis by simp
  next
    case False
    with n Cons.prems(2)
    have "load_trace br offline s (i + 1) ats (sq_append arrival_time r fut) = Inr fut'"
      by (simp add: Let_def)
    from Cons.IH [OF f this] show ?thesis .
  qed
qed

lemma load_slo_csv_fresh:
  "\<forall>r\<in>set fut. all_or_nothing r \<Longrightarrow> load_slo_csv br offline rows fut = Inr fut'
     \<Longrightarrow> \<forall>r\<in>set fut'. all_or_nothing r"
proof (induction rows arbitrary: fut)
  case Nil
  then show ?case by simp
next
  case (Cons row rows)
  obtain request_id s a where row: "row = (request_id, s, a)" by (cases row) auto
  from Cons.prems(2) row obtain r where
    n: "new_request br (if offline = 0 then a else 0) request_id s = Inr r"
    by (auto split: sum.splits)
  from new_request_fresh [OF n] Cons.prems(1)
  have f: "\<forall>x\<in>set (sq_append arrival_time r fut). all_or_nothing x"
    by (simp add: set_sq_append)
  show ?case
  proof (cases "offline > 0 \<and> request_id \<ge> offline - 1")
    case True
    with n row Cons.prems(2) have "fut' = sq_append arrival_time r fut" by (simp add: Let_def)
    with f show ?thesis by simp
  next
    case False
    with n row Cons.prems(2)
    have "load_slo_csv br offline rows (sq_append arrival_time r fut) = Inr fut'"
      by (simp add: Let_def)
    from Cons.IH [OF f this] show ?thesis .
  qed
qed

lemma startup_fresh:
  assumes "startup a br ats slo_csv p = Inr st0"
  shows "\<forall>r\<in>set (state_requests st0). all_or_nothing r"
proof -
  from startup_result [OF assms] have
    l: "(case slo_csv of
             Some rows \<Rightarrow> load_slo_csv br (args_offline_num_reqs a) rows []
           | None \<Rightarrow> load_trace br (args_offline_num_reqs a) (args_slo_factor a) 0 ats [])
           = Inr (future_requests st0)"
    and e: "queue st0 = []" "current_batch st0 = []" "finished_requests st0 = []"
    by auto
  have "\<forall>r\<in>set (future_requests st0). all_or_nothing r"
  proof (cases slo_csv)
    case None
    with l have "load_trace br (args_offline_num_reqs a) (args_slo_factor a) 0 ats []
      = Inr (future_requests st0)" by simp
    from load_trace_fresh [OF _ this] show ?thesis by simp
  next
    case (Some rows)
    with l have "load_slo_csv br (args_offline_num_reqs a) rows [] = Inr (future_requests st0)"
      by simp
    from load_slo_csv_fresh [OF _ this] show ?thesis by simp
  qed
  with e show ?thesis by (simp add: state_requests_def)
qed

lemma all_or_nothing_step:
  assumes keeps: "policy_keeps all_or_nothing pol"
    and inv: "\<forall>r\<in>set (state_requests st). all_or_nothing r"
    and it: "iteration pol preemption br st = Inr out"
  shows "\<forall>r\<in>set (state_requests (outcome_state out)). all_or_nothing r"
proof -
  from iteration_phases [OF it] obtain st1 st2 st3 st4 where
    a: "admit br st = Inr st1"
    and p: "preempt_phase pol preemption br (event_of st) st1 = Inr st2"
    and f: "finish_phase (event_of st) st2 = Inr st3"
    and s: "schedule_phase pol br (event_of st) st3 = Inr st4"
    and adv: "advance st4 = Inr out"
    by blast
  from admit_facts [OF a] obtain gone arrived rest where
    g: "queue st = gone @ rest"
       "finished_requests st1 =
          finished_requests st @ map (\<lambda>r. get_dropped r (current_time st)) gone"
       "future_requests st = arrived @ future_requests st1"
       "set (queue st1) = set rest \<union> set arrived"
       "current_batch st1 = current_batch st"
    by blast
  from inv g have i1: "\<forall>r\<in>set (state_requests st1). all_or_nothing r"
    by (auto simp: state_requests_def all_or_nothing_methods)
  have i2: "\<forall>r\<in>set (state_requests st2). all_or_nothing r"
  proof (cases "event_of st = CHECK_PREEMPTION \<and> preemption")
    case False
    with preempt_phase_result [OF p] i1 show ?thesis by auto
  next
    case True
    with preempt_phase_result [OF p] obtain p' b' q' ch where
      pr: "preempt pol (scheduler st1) (current_batch st1) (queue st1) (current_time st1)
             (batch_finish_time st1) = (p', b', q', ch)"
      and fr: "future_requests st2 = future_requests st1"
        "finished_requests st2 = finished_requests st1"
        "current_batch st2 = b'" "queue st2 = q'"
      by auto
    from i1 have "\<forall>r\<in>set (current_batch st1) \<union> set (queue st1). all_or_nothing r"
      by (auto simp: state_requests_def)
    with keeps pr have "\<forall>r\<in>set b' \<union> set q'. all_or_nothing r"
      unfolding policy_keeps_def by blast
    with fr i1 show ?thesis by (auto simp: state_requests_def)
  qed
  have i3: "\<forall>r\<in>set (state_requests st3). all_or_nothing r"
    using finish_phase_result [OF f] i2
    by (cases "event_of st = BATCH_FINISHED") (auto simp: state_requests_def)
  have i4: "\<forall>r\<in>set (state_requests st4). all_or_nothing r"
  proof (cases "event_of st = CHECK_PREEMPTION")
    case True
    with s i3 show ?thesis by (simp add: schedule_phase_skip)
  next
    case False
    from schedule_phase_result [OF False s] obtain p' b' q' nct where
      sc: "schedule pol (scheduler st3) (current_batch st3) (queue st3) (current_time st3)
             = (p', b', q', nct)"
      and fr: "queue st4 = q'" "future_requests st4 = future_requests st3"
        "finished_requests st4 = finished_requests st3"
      and b4: "if b' = []
             then current_batch st4 = [] \<and> batch_finish_time st4 = batch_finish_time st3
             else \<exists>d. br (int (length b')) = Some d
                    \<and> batch_finish_time st4 = At (current_time st3 + d)
                    \<and> current_batch st4 =
                        map (\<lambda>r. Request_schedule r (current_time st3) (length b') d) b'"
      by blast
    from i3 have "\<forall>r\<in>set (current_batch st3) \<union> set (queue st3). all_or_nothing r"
      by (auto simp: state_requests_def)
    with keeps sc have q: "\<forall>r\<in>set b' \<union> set q'. all_or_nothing r"
      unfolding policy_keeps_def by blast
    from b4 have "\<forall>r\<in>set (current_batch st4). all_or_nothing r"
      by (cases "b' = []") (auto simp: all_or_nothing_methods)
    with q fr i3 show ?thesis by (auto simp: state_requests_def)
  qed
  from advance_result [OF adv] i4 show ?thesis
    by (auto simp: state_requests_def)
qed

text \<open>
  Claim C5. The four scheduling fields of a request are all unset or all set: after
  construction, after \<^verbatim>\<open>Request.schedule\<close>, after \<^verbatim>\<open>Request.preempt\<close>, and
  \<^verbatim>\<open>get_dropped\<close> does not change it; an iteration of the engine keeps it for every
  request of every container, and so it holds at the top of every iteration and at the
  exit of a run started by \<open>startup\<close>, provided the policy's two entry points keep it
  for the requests they hand back.
\<close>

theorem scheduling_fields_all_or_nothing:
  "(new_request br a i s = Inr r \<longrightarrow> all_or_nothing r)
 \<and> all_or_nothing (Request_schedule r0 t b d)
 \<and> all_or_nothing (Request_preempt r0)
 \<and> (all_or_nothing (get_dropped r0 t) \<longleftrightarrow> all_or_nothing r0)
 \<and> (policy_keeps all_or_nothing pol \<longrightarrow> (\<forall>x\<in>set (state_requests st). all_or_nothing x)
      \<longrightarrow> iteration pol preemption br st = Inr out
      \<longrightarrow> (\<forall>x\<in>set (state_requests (outcome_state out)). all_or_nothing x))
 \<and> (policy_keeps all_or_nothing pol \<longrightarrow> startup ar br ats slo_csv p = Inr st0
      \<longrightarrow> run pol preemption br n st0 = Inr out'
      \<longrightarrow> (\<forall>x\<in>set (state_requests (outcome_state out')). all_or_nothing x))"
proof (intro conjI impI)
  assume "new_request br a i s = Inr r"
  then show "all_or_nothing r" by (rule new_request_fresh)
next
  show "all_or_nothing (Request_schedule r0 t b d)" by (rule all_or_nothing_methods)
next
  show "all_or_nothing (Request_preempt r0)" by (rule all_or_nothing_methods)
next
  show "all_or_nothing (get_dropped r0 t) \<longleftrightarrow> all_or_nothing r0"
    by (rule all_or_nothing_methods)
next
  assume "policy_keeps all_or_nothing pol" "\<forall>x\<in>set (state_requests st). all_or_nothing x"
    "iteration pol preemption br st = Inr out"
  then show "\<forall>x\<in>set (state_requests (outcome_state out)). all_or_nothing x"
    by (rule all_or_nothing_step)
next
  assume k: "policy_keeps all_or_nothing pol" and s: "startup ar br ats slo_csv p = Inr st0"
    and r: "run pol preemption br n st0 = Inr out'"
  have step: "\<And>st out. \<forall>x\<in>set (state_requests st). all_or_nothing x
      \<Longrightarrow> iteration pol preemption br st = Inr out
      \<Longrightarrow> \<forall>x\<in>set (state_requests (outcome_state out)). all_or_nothing x"
    using all_or_nothing_step [OF k] by blast
  from run_outcome_invariant [where P = "\<lambda>st. \<forall>x\<in>set (state_requests st). all_or_nothing x",
      OF step startup_fresh [OF s] r]
  show "\<forall>x\<in>set (state_requests (outcome_state out')). all_or_nothing x" by simp
qed

theorem scheduling_fields_all_or_nothing_witness:
  "new_request example_runtimes 0 0 5 = Inr (example_request 0 0 5)
 \<and> all_or_nothing (example_request 0 0 5)
 \<and> policy_keeps all_or_nothing policy_evict_last
 \<and> startup example_args example_runtimes [0] None ()
      = Inr (example_state [] [example_request 0 0 5] 0)
 \<and> run policy_evict_last True example_runtimes 1 (example_state [] [example_request 0 0 5] 0)
      = Inr (Continue example_running)
 \<and> list_all all_or_nothing (state_requests example_running)"
proof -
  have h0: "new_request example_runtimes 0 0 5 = Inr (example_request 0 0 5)"
    by (simp add: new_request_def example_defs)
  have h1: "policy_keeps all_or_nothing policy_evict_last"
    unfolding policy_keeps_def policy_evict_last_def
  proof (intro conjI allI impI)
    fix p :: unit and b q :: "Request list" and t :: real and p' b' q' nct
    assume "\<forall>r\<in>set b \<union> set q. all_or_nothing r"
      and "schedule \<lparr> schedule = (\<lambda>p b q t. (p, b @ q, [], Never)),
             preempt = (\<lambda>p b q t bft.
               if length b > 1
               then (p, butlast b, sq_append deadline (Request_preempt (last b)) q, True)
               else (p, b, q, False)) \<rparr> p b q t = (p', b', q', nct)"
    then show "\<forall>r\<in>set b' \<union> set q'. all_or_nothing r" by auto
  next
    fix p :: unit and b q :: "Request list" and t :: real and bft p' b' q' ch
    assume inv: "\<forall>r\<in>set b \<union> set q. all_or_nothing r"
      and pr: "preempt \<lparr> schedule = (\<lambda>p b q t. (p, b @ q, [], Never)),
             preempt = (\<lambda>p b q t bft.
               if length b > 1
               then (p, butlast b, sq_append deadline (Request_preempt (last b)) q, True)
               else (p, b, q, False)) \<rparr> p b q t bft = (p', b', q', ch)"
    show "\<forall>r\<in>set b' \<union> set q'. all_or_nothing r"
    proof (cases "length b > 1")
      case False
      with pr inv show ?thesis by auto
    next
      case True
      with pr have b': "b' = butlast b"
        and q': "q' = sq_append deadline (Request_preempt (last b)) q" by auto
      from inv b' have "\<forall>r\<in>set b'. all_or_nothing r" by (auto dest: in_set_butlastD)
      moreover from inv q' have "\<forall>r\<in>set q'. all_or_nothing r"
        by (auto simp: set_sq_append all_or_nothing_methods)
      ultimately show ?thesis by auto
    qed
  qed
  have h2: "startup example_args example_runtimes [0] None ()
      = Inr (example_state [] [example_request 0 0 5] 0)"
    by (simp add: startup_def validate_args_def new_request_def example_defs)
  have h3: "run policy_evict_last True example_runtimes 1
      (example_state [] [example_request 0 0 5] 0) = Inr (Continue example_running)"
    by (simp add: engine_defs example_defs request_defs)
  from scheduling_fields_all_or_nothing [where br = example_runtimes and a = 0 and i = 0
      and s = 5 and r = "example_request 0 0 5" and pol = policy_evict_last
      and preemption = True and ar = example_args and ats = "[0]" and slo_csv = None
      and p = "()" and ?st0.0 = "example_state [] [example_request 0 0 5] 0" and n = 1
      and out' = "Continue example_running"] h0 h1 h2 h3
  show ?thesis by (simp add: list_all_iff)
qed

section \<open>The deadline of a request\<close>



section \<open>Draining a finished batch\<close>






section \<open>Simulated time and the exit of the loop\<close>











section \<open>Preemption disabled\<close>

text \<open>
  Claim C7. With preemption disabled, an iteration whose event is CHECK\_PREEMPTION
  leaves the batch finish time, the in-flight batch and the policy's internal state as
  they were; the result of an iteration does not depend on the policy's \<^verbatim>\<open>preempt\<close>
  entry point at all, and in a CHECK\_PREEMPTION iteration it does not depend on the
  policy.
\<close>

theorem preemption_disabled:
  "(event_of st = CHECK_PREEMPTION \<longrightarrow> iteration pol False br st = Inr out \<longrightarrow>
      batch_finish_time (outcome_state out) = batch_finish_time st
    \<and> current_batch (outcome_state out) = current_batch st
    \<and> scheduler (outcome_state out) = scheduler st)
 \<and> iteration (pol \<lparr> preempt := f \<rparr>) False br st = iteration pol False br st
 \<and> (event_of st = CHECK_PREEMPTION \<longrightarrow>
      iteration pol' False br st = iteration pol False br st)"
proof (intro conjI impI)
  assume ev: "event_of st = CHECK_PREEMPTION" and it: "iteration pol False br st = Inr out"
  from iteration_phases [OF it] obtain st1 st2 st3 st4 where
    a: "admit br st = Inr st1"
    and p: "preempt_phase pol False br (event_of st) st1 = Inr st2"
    and f: "finish_phase (event_of st) st2 = Inr st3"
    and s: "schedule_phase pol br (event_of st) st3 = Inr st4"
    and adv: "advance st4 = Inr out"
    by blast
  from p have "st2 = st1" by (simp add: preempt_phase_def)
  moreover from f ev have "st3 = st2" by (simp add: finish_phase_def)
  moreover from s ev have "st4 = st3" by (simp add: schedule_phase_def)
  ultimately have "st4 = st1" by simp
  with admit_frame [OF a] advance_result [OF adv]
  show "batch_finish_time (outcome_state out) = batch_finish_time st"
    "current_batch (outcome_state out) = current_batch st"
    "scheduler (outcome_state out) = scheduler st"
    by auto
next
  have "\<And>ev s. preempt_phase (pol \<lparr> preempt := f \<rparr>) False br ev s
            = preempt_phase pol False br ev s"
    by (simp add: preempt_phase_def)
  moreover have "\<And>ev s. schedule_phase (pol \<lparr> preempt := f \<rparr>) br ev s
            = schedule_phase pol br ev s"
    by (simp add: schedule_phase_def)
  ultimately
  show "iteration (pol \<lparr> preempt := f \<rparr>) False br st = iteration pol False br st"
    by (simp add: iteration_def iteration_on_def cong: sum.case_cong)
next
  assume ev: "event_of st = CHECK_PREEMPTION"
  have "\<And>s. preempt_phase pol' False br CHECK_PREEMPTION s
            = preempt_phase pol False br CHECK_PREEMPTION s"
    by (simp add: preempt_phase_def)
  moreover have "\<And>s. schedule_phase pol' br CHECK_PREEMPTION s
            = schedule_phase pol br CHECK_PREEMPTION s"
    by (simp add: schedule_phase_def)
  ultimately show "iteration pol' False br st = iteration pol False br st"
    using ev by (simp add: iteration_def iteration_on_def cong: sum.case_cong)
qed

theorem preemption_disabled_witness:
  "event_of example_checking = CHECK_PREEMPTION
 \<and> iteration policy_evict_last False example_runtimes example_checking
     = Inr (Continue (example_checking
               \<lparr> queue := [example_request 1 3 5], future_requests := [],
                 current_time := 10 \<rparr>))
 \<and> batch_finish_time (example_checking
               \<lparr> queue := [example_request 1 3 5], future_requests := [],
                 current_time := 10 \<rparr>) = batch_finish_time example_checking"
proof -
  have h1: "event_of example_checking = CHECK_PREEMPTION"
    by (simp add: engine_defs example_defs)
  have h2: "iteration policy_evict_last False example_runtimes example_checking
     = Inr (Continue (example_checking
               \<lparr> queue := [example_request 1 3 5], future_requests := [],
                 current_time := 10 \<rparr>))"
    by (simp add: engine_defs example_defs request_defs)
  from preemption_disabled [of example_checking policy_evict_last example_runtimes
      "Continue (example_checking
               \<lparr> queue := [example_request 1 3 5], future_requests := [],
                 current_time := 10 \<rparr>)"] h1 h2
  show ?thesis by simp
qed

section \<open>Admission control runs before the arrival gate\<close>

text \<open>
  Claim C10. In the iteration at time \<open>T\<close> the admission controller drops a prefix of
  the requests that were waiting at the top of the iteration, and only then does the
  arrival gate move every request with arrival time \<open>\<le> T\<close> into the waiting container,
  whatever its deadline. So a request that arrives at 0 with deadline \<open>5 < 0 + 10\<close> is
  batched at 0 by \<open>policy_batch_all\<close>; under \<open>policy_wait\<close>, which never schedules,
  it is still waiting after the iteration at 0 and is dropped in the next iteration, at
  time 1.
\<close>

theorem arrivals_skip_admission:
  "(admit br st = Inr st1 \<longrightarrow>
      (\<exists>gone rest. queue st = gone @ rest
          \<and> finished_requests st1 =
              finished_requests st @ map (\<lambda>r. get_dropped r (current_time st)) gone)
    \<and> set (takeWhile (\<lambda>r. arrival_time r \<le> current_time st) (future_requests st))
        \<subseteq> set (queue st1)
    \<and> current_batch st1 = current_batch st)
 \<and> startup (example_args \<lparr> args_slo_factor := 0.5 \<rparr>) example_runtimes [0] None ()
     = Inr (example_state [] [example_request 0 0 0.5] 0)
 \<and> deadline (example_request 0 0 0.5) < 0 + 10
 \<and> iteration policy_batch_all False example_runtimes
       (example_state [] [example_request 0 0 0.5] 0)
     = Inr (Continue
         \<lparr> queue = [], future_requests = [], finished_requests = [],
           current_batch = [Request_schedule (example_request 0 0 0.5) 0 1 10],
           current_time = 10, batch_finish_time = At 10, next_check_time = Some Never,
           scheduler = () \<rparr>)
 \<and> run policy_wait False example_runtimes 1 (example_state [] [example_request 0 0 0.5] 0)
     = Inr (Continue
         \<lparr> queue = [example_request 0 0 0.5], future_requests = [], finished_requests = [],
           current_batch = [], current_time = 1, batch_finish_time = Never,
           next_check_time = Some (At 1), scheduler = () \<rparr>)
 \<and> run policy_wait False example_runtimes 2 (example_state [] [example_request 0 0 0.5] 0)
     = Inr (Finished
         \<lparr> queue = [], future_requests = [],
           finished_requests = [get_dropped (example_request 0 0 0.5) 1],
           current_batch = [], current_time = 1, batch_finish_time = Never,
           next_check_time = Some (At 2), scheduler = () \<rparr>)"
proof (intro conjI impI)
  assume a: "admit br st = Inr st1"
  from admit_facts [OF a]
  show "\<exists>gone rest. queue st = gone @ rest
          \<and> finished_requests st1 =
              finished_requests st @ map (\<lambda>r. get_dropped r (current_time st)) gone"
    by blast
  from admit_facts [OF a]
  show "set (takeWhile (\<lambda>r. arrival_time r \<le> current_time st) (future_requests st))
        \<subseteq> set (queue st1)"
    by auto
  from admit_frame [OF a] show "current_batch st1 = current_batch st" by simp
next
  show "startup (example_args \<lparr> args_slo_factor := 0.5 \<rparr>) example_runtimes [0] None ()
     = Inr (example_state [] [example_request 0 0 0.5] 0)"
    by (simp add: startup_def validate_args_def new_request_def example_defs)
next
  show "deadline (example_request 0 0 0.5) < 0 + 10"
    by (simp add: example_defs)
next
  show "iteration policy_batch_all False example_runtimes
       (example_state [] [example_request 0 0 0.5] 0)
     = Inr (Continue
         \<lparr> queue = [], future_requests = [], finished_requests = [],
           current_batch = [Request_schedule (example_request 0 0 0.5) 0 1 10],
           current_time = 10, batch_finish_time = At 10, next_check_time = Some Never,
           scheduler = () \<rparr>)"
    by (simp add: engine_defs example_defs request_defs)
next
  show "run policy_wait False example_runtimes 1 (example_state [] [example_request 0 0 0.5] 0)
     = Inr (Continue
         \<lparr> queue = [example_request 0 0 0.5], future_requests = [], finished_requests = [],
           current_batch = [], current_time = 1, batch_finish_time = Never,
           next_check_time = Some (At 1), scheduler = () \<rparr>)"
    by (simp add: engine_defs example_defs request_defs)
next
  show "run policy_wait False example_runtimes 2 (example_state [] [example_request 0 0 0.5] 0)
     = Inr (Finished
         \<lparr> queue = [], future_requests = [],
           finished_requests = [get_dropped (example_request 0 0 0.5) 1],
           current_batch = [], current_time = 1, batch_finish_time = Never,
           next_check_time = Some (At 2), scheduler = () \<rparr>)"
    by (simp add: engine_defs example_defs request_defs numeral_2_eq_2)
qed

theorem arrivals_skip_admission_witness:
  "admit example_runtimes (example_state [] [example_request 0 0 0.5] 0)
     = Inr (example_state [example_request 0 0 0.5] [] 0)
 \<and> set (takeWhile (\<lambda>r. arrival_time r \<le> 0) [example_request 0 0 0.5])
      \<subseteq> set (queue (example_state [example_request 0 0 0.5] [] 0 :: unit sim_state))
 \<and> finished_requests (example_state [example_request 0 0 0.5] [] 0 :: unit sim_state) = []"
proof -
  have h: "admit example_runtimes (example_state [] [example_request 0 0 0.5] 0)
     = Inr (example_state [example_request 0 0 0.5] [] 0)"
    by (simp add: engine_defs example_defs)
  from arrivals_skip_admission [where br = example_runtimes
      and st = "example_state [] [example_request 0 0 0.5] 0"
      and ?st1.0 = "example_state [example_request 0 0 0.5] [] 0"] h
  have "set (takeWhile (\<lambda>r. arrival_time r
                 \<le> current_time (example_state [] [example_request 0 0 0.5] 0))
              (future_requests (example_state [] [example_request 0 0 0.5] 0)))
        \<subseteq> set (queue (example_state [example_request 0 0 0.5] [] 0 :: unit sim_state))"
    by blast
  with h show ?thesis by (simp add: example_state_def)
qed

section \<open>Configuration errors\<close>




end
